theory Spec2Isabelle
  imports Main "HOL-Library.AList"
begin

section \<open>Token list reconciliation: the factory of the token accessor\<close>

text \<open>
  The source is one TypeScript closure, \<^verbatim>\<open>getTokensFactory\<close>, over four collaborators
  (the token cache, the exchange contract, an optional curated registry and the ERC20
  metadata resolver). The cache and the closure's private set \<^verbatim>\<open>areTokensUpdated\<close> are
  state, passed explicitly; the other collaborators are the fields of a record of
  functions, whose results are sums: \<open>Inl\<close> is a rejected promise.

  An external call answers the same way whenever it is asked again during one pass. The
  answers may differ from one pass to the next: every pass takes its own record.
\<close>

subsection \<open>Data\<close>

text \<open>
  Modelled from the spec: the types \<^verbatim>\<open>TokenErc20\<close> and \<^verbatim>\<open>TokenDetails\<close> are imported and
  absent from the sources. A record has its address, the display metadata that the
  resolver returns and, for \<^verbatim>\<open>TokenDetails\<close>, the slot id; the code reads the address,
  writes the id and copies everything else as it is. Network ids, slot ids and the token
  count are natural numbers.
\<close>

record TokenErc20 =
  address :: string
  symbol :: string
  name :: string
  decimals :: nat

text \<open>\<^verbatim>\<open>TokenDetails\<close> is \<^verbatim>\<open>TokenErc20\<close> with the slot id (\<^verbatim>\<open>id\<close> in the source).\<close>

record TokenDetails = TokenErc20 +
  tokenId :: nat

datatype error =
  CallFailed string
  | MaxRetriesExceeded nat "string list"

record factoryParams =
  hasToken :: "nat \<Rightarrow> string \<Rightarrow> error + bool"
  getTokenIdByAddress :: "nat \<Rightarrow> string \<Rightarrow> error + nat"
  getTokenAddressById :: "nat \<Rightarrow> nat \<Rightarrow> error + string"
  getNumTokens :: "nat \<Rightarrow> error + nat"
  tcrApi :: "(nat \<Rightarrow> error + string list) option"
  getTokenFromErc20 :: "nat \<Rightarrow> string \<Rightarrow> error + TokenErc20 option"
  retryAttempts :: nat

text \<open>
  The arguments of the call \<^verbatim>\<open>updateTokenIds(networkId, failedToUpdate, maxRetries - 1,
  nextDelay)\<close> that \<^verbatim>\<open>setTimeout\<close> holds until its delay has passed.
\<close>

record retryCall =
  rc_networkId :: nat
  rc_tokens :: "TokenDetails list"
  rc_maxRetries :: int
  rc_retryDelay :: nat

text \<open>
  \<open>tokenList\<close> is the cache behind \<^verbatim>\<open>tokenListApi\<close> and \<open>persistCalls\<close> the calls of
  \<^verbatim>\<open>persistTokens\<close> made so far, oldest first. \<open>timers\<close> holds the pending
  \<^verbatim>\<open>setTimeout\<close> callbacks with their delays, \<open>background\<close> the networks whose
  \<^verbatim>\<open>updateTokens\<close> promise the accessor started and did not await.
\<close>

record state =
  tokenList :: "nat \<Rightarrow> TokenDetails list"
  persistCalls :: "(nat \<times> TokenDetails list) list"
  areTokensUpdated :: "nat set"
  timers :: "(nat \<times> retryCall) list"
  background :: "nat list"

text \<open>
  Modelled from the spec: the token cache store (\<^verbatim>\<open>api/tokenList/TokenListApi\<close>) is absent
  from the sources. \<^verbatim>\<open>getTokens(networkId)\<close> returns the ordered sequence cached for the
  network and \<^verbatim>\<open>persistTokens\<close> overwrites it.
\<close>

definition getTokens :: "state \<Rightarrow> nat \<Rightarrow> TokenDetails list" where
  "getTokens s networkId = tokenList s networkId"

definition persistTokens :: "nat \<Rightarrow> TokenDetails list \<Rightarrow> state \<Rightarrow> state" where
  "persistTokens networkId tokens s =
     s\<lparr>tokenList := (tokenList s)(networkId := tokens),
       persistCalls := persistCalls s @ [(networkId, tokens)]\<rparr>"

subsection \<open>JavaScript containers and promises\<close>

text \<open>
  A JavaScript \<^verbatim>\<open>Map\<close> iterates in insertion order and \<^verbatim>\<open>set\<close> on a present key
  overwrites the value where the key stands: an association list with \<open>AList.update\<close>.
  \<^verbatim>\<open>new Map(entries)\<close> sets the entries one after the other.
\<close>

definition Map_set :: "('k \<times> 'v) list \<Rightarrow> 'k \<Rightarrow> 'v \<Rightarrow> ('k \<times> 'v) list" where
  "Map_set m k v = AList.update k v m"

definition Map_new :: "('k \<times> 'v) list \<Rightarrow> ('k \<times> 'v) list" where
  "Map_new entries = foldl (\<lambda>m (k, v). Map_set m k v) [] entries"

definition Map_get :: "('k \<times> 'v) list \<Rightarrow> 'k \<Rightarrow> 'v option" where
  "Map_get m k = map_of m k"

text \<open>A \<^verbatim>\<open>Set\<close>, in insertion order as well.\<close>

definition Set_add :: "'a list \<Rightarrow> 'a \<Rightarrow> 'a list" where
  "Set_add xs x = (if x \<in> set xs then xs else xs @ [x])"

definition Set_new :: "'a list \<Rightarrow> 'a list" where
  "Set_new xs = foldl Set_add [] xs"

text \<open>\<^verbatim>\<open>Promise.all\<close>: the values in order, or a rejection when one promise rejects.\<close>

fun Promise_all :: "(error + 'a) list \<Rightarrow> error + 'a list" where
  "Promise_all [] = Inr []"
| "Promise_all (r # rs) =
     (case r of
        Inl e \<Rightarrow> Inl e
      | Inr v \<Rightarrow> (case Promise_all rs of Inl e \<Rightarrow> Inl e | Inr vs \<Rightarrow> Inr (v # vs)))"

text \<open>\<^verbatim>\<open>.filter(notEmpty)\<close> drops the \<^verbatim>\<open>null\<close> and \<^verbatim>\<open>undefined\<close> entries.\<close>

fun filter_notEmpty :: "'a option list \<Rightarrow> 'a list" where
  "filter_notEmpty [] = []"
| "filter_notEmpty (None # xs) = filter_notEmpty xs"
| "filter_notEmpty (Some x # xs) = x # filter_notEmpty xs"

text \<open>
  Modelled from the spec: the helper \<^verbatim>\<open>retry\<close> of \<^verbatim>\<open>utils\<close> is absent from the sources. It
  invokes the operation and, on failure, invokes it again, up to a fixed number of
  further attempts, and propagates the last failure. The number is a parameter here
  (\<open>retryAttempts\<close>).
\<close>

fun retry :: "nat \<Rightarrow> (unit \<Rightarrow> error + 'a) \<Rightarrow> error + 'a" where
  "retry 0 fn = fn ()"
| "retry (Suc n) fn = (case fn () of Inr v \<Rightarrow> Inr v | Inl e \<Rightarrow> retry n fn)"

subsection \<open>The id-only refresh\<close>

record UpdateTokenIdResult =
  token :: TokenDetails
  removeFlag :: bool
  failed :: bool

text \<open>
  \<^verbatim>\<open>token.id = await ...\<close> writes into the token object itself; the result carries the
  record with the new id, and the list rebuilt below is the same either way.
\<close>

definition updateTokenIdOrIndicateFailure ::
  "factoryParams \<Rightarrow> nat \<Rightarrow> TokenDetails \<Rightarrow> UpdateTokenIdResult" where
  "updateTokenIdOrIndicateFailure p networkId tok =
     (case hasToken p networkId (address tok) of
        Inl e \<Rightarrow> \<lparr>token = tok, removeFlag = False, failed = True\<rparr>
      | Inr has \<Rightarrow>
          if \<not> has then \<lparr>token = tok, removeFlag = True, failed = False\<rparr>
          else (case getTokenIdByAddress p networkId (address tok) of
                  Inl e \<Rightarrow> \<lparr>token = tok, removeFlag = False, failed = True\<rparr>
                | Inr i \<Rightarrow> \<lparr>token = tok\<lparr>tokenId := i\<rparr>, removeFlag = False, failed = False\<rparr>))"

text \<open>The body of \<^verbatim>\<open>results.forEach\<close>: the accumulator is (updated, failedToUpdate, toRemove).\<close>

definition classifyResult ::
  "(string \<times> TokenDetails) list \<times> TokenDetails list \<times> string list \<Rightarrow> UpdateTokenIdResult
   \<Rightarrow> (string \<times> TokenDetails) list \<times> TokenDetails list \<times> string list" where
  "classifyResult acc r =
     (case acc of (updated, failedToUpdate, toRemove) \<Rightarrow>
        if removeFlag r then (updated, failedToUpdate, Set_add toRemove (address (token r)))
        else if failed r then (updated, failedToUpdate @ [token r], toRemove)
        else (Map_set updated (address (token r)) (token r), failedToUpdate, toRemove))"

definition classifyResults ::
  "UpdateTokenIdResult list
   \<Rightarrow> (string \<times> TokenDetails) list \<times> TokenDetails list \<times> string list" where
  "classifyResults results = foldl classifyResult ([], [], []) results"

text \<open>The \<^verbatim>\<open>reduce\<close> that builds the new list from the cached one.\<close>

definition rebuildTokenList ::
  "(string \<times> TokenDetails) list \<Rightarrow> string list \<Rightarrow> TokenDetails list \<Rightarrow> TokenDetails list" where
  "rebuildTokenList updated toRemove cached =
     foldl (\<lambda>acc tok.
        if address tok \<in> set toRemove then acc
        else acc @ [case Map_get updated (address tok) of Some u \<Rightarrow> u | None \<Rightarrow> tok])
       [] cached"

definition setTimeout :: "retryCall \<Rightarrow> nat \<Rightarrow> state \<Rightarrow> state" where
  "setTimeout callback delay s = s\<lparr>timers := timers s @ [(delay, callback)]\<rparr>"

definition updateTokenIds ::
  "factoryParams \<Rightarrow> nat \<Rightarrow> TokenDetails list \<Rightarrow> int \<Rightarrow> nat \<Rightarrow> bool \<Rightarrow> state \<Rightarrow> error + state" where
  "updateTokenIds p networkId tokens maxRetries retryDelay exponentialBackOff s =
     (if maxRetries \<le> 0 then Inl (MaxRetriesExceeded networkId (map address tokens))
      else
        (case classifyResults (map (updateTokenIdOrIndicateFailure p networkId) tokens) of
           (updated, failedToUpdate, toRemove) \<Rightarrow>
             let s1 = (if toRemove \<noteq> [] \<or> updated \<noteq> []
                       then persistTokens networkId
                              (rebuildTokenList updated toRemove (getTokens s networkId)) s
                       else s);
                 nextDelay = retryDelay * (if exponentialBackOff then 2 else 1)
             in Inr (if failedToUpdate \<noteq> []
                     then setTimeout \<lparr>rc_networkId = networkId, rc_tokens = failedToUpdate,
                                      rc_maxRetries = maxRetries - 1, rc_retryDelay = nextDelay\<rparr>
                            retryDelay s1
                     else s1)))"

text \<open>
  The oldest pending timer fires: its callback calls \<^verbatim>\<open>updateTokenIds\<close> with four
  arguments, so \<^verbatim>\<open>exponentialBackOff\<close> takes its default, \<^verbatim>\<open>true\<close>. Nobody awaits that
  promise: \<open>Inl\<close> is its rejection.
\<close>

definition fireTimer :: "factoryParams \<Rightarrow> state \<Rightarrow> error + state" where
  "fireTimer p s =
     (case timers s of
        [] \<Rightarrow> Inr s
      | (delay, c) # rest \<Rightarrow>
          updateTokenIds p (rc_networkId c) (rc_tokens c) (rc_maxRetries c) (rc_retryDelay c) True
            (s\<lparr>timers := rest\<rparr>))"

subsection \<open>The full metadata reconciliation\<close>

definition getErc20DetailsOrAddress ::
  "factoryParams \<Rightarrow> nat \<Rightarrow> string \<Rightarrow> error + (TokenErc20 + string)" where
  "getErc20DetailsOrAddress p networkId tokenAddress =
     (case getTokenFromErc20 p networkId tokenAddress of
        Inl e \<Rightarrow> Inl e
      | Inr None \<Rightarrow> Inr (Inr tokenAddress)
      | Inr (Some erc20Details) \<Rightarrow> Inr (Inl erc20Details))"

definition fetchAddressesAndIds ::
  "factoryParams \<Rightarrow> nat \<Rightarrow> nat \<Rightarrow> error + (string \<times> nat) list" where
  "fetchAddressesAndIds p networkId numTokens =
     (case Promise_all
             (map (\<lambda>tokenId.
                     case getTokenAddressById p networkId tokenId of
                       Inl e \<Rightarrow> Inl e
                     | Inr tokenAddress \<Rightarrow> Inr (tokenAddress, tokenId))
                [0..<numTokens]) of
        Inl e \<Rightarrow> Inl e
      | Inr tokenAddressIdPairs \<Rightarrow> Inr (Map_new tokenAddressIdPairs))"

definition fetchTcrAddresses :: "factoryParams \<Rightarrow> nat \<Rightarrow> error + string list" where
  "fetchTcrAddresses p networkId =
     (case tcrApi p of
        None \<Rightarrow> Inr (Set_new [])
      | Some api \<Rightarrow> (case api networkId of Inl e \<Rightarrow> Inl e | Inr xs \<Rightarrow> Inr (Set_new xs)))"

text \<open>
  \<^verbatim>\<open>_getFilteredIdsMap\<close>. Both fetches are started together and the function needs both
  results; the registry is looked at first here, which only decides whose error is
  reported when both fail.
\<close>

definition getFilteredIdsMap ::
  "factoryParams \<Rightarrow> nat \<Rightarrow> nat \<Rightarrow> state \<Rightarrow> error + (string \<times> nat) list" where
  "getFilteredIdsMap p networkId numTokens s =
     (case retry (retryAttempts p) (\<lambda>_. fetchTcrAddresses p networkId) of
        Inl e \<Rightarrow> Inl e
      | Inr tcrAddressesSet \<Rightarrow>
         (case retry (retryAttempts p) (\<lambda>_. fetchAddressesAndIds p networkId numTokens) of
            Inl e \<Rightarrow> Inl e
          | Inr listedAddressesAndIds \<Rightarrow>
              Inr (Map_new
                (if tcrAddressesSet \<noteq> []
                 then filter (\<lambda>(a, i). a \<in> set tcrAddressesSet) listedAddressesAndIds
                 else filter_notEmpty
                        (map (\<lambda>tok.
                                case Map_get listedAddressesAndIds (address tok) of
                                  Some i \<Rightarrow> Some (address tok, i)
                                | None \<Rightarrow> None)
                           (getTokens s networkId))))))"

text \<open>
  The promise pushed for a newly eligible address: \<^verbatim>\<open>undefined\<close> when the probe gave
  \<^verbatim>\<open>null\<close>, otherwise the resolved fields and the slot id of the scan.
\<close>

definition fullTokenPromise ::
  "factoryParams \<Rightarrow> nat \<Rightarrow> string \<Rightarrow> nat \<Rightarrow> error + TokenDetails option" where
  "fullTokenPromise p networkId tokenAddress i =
     (case getErc20DetailsOrAddress p networkId tokenAddress of
        Inl e \<Rightarrow> Inl e
      | Inr (Inr _) \<Rightarrow> Inr None
      | Inr (Inl partialToken) \<Rightarrow>
          Inr (Some \<lparr>address = address partialToken, symbol = symbol partialToken,
                     name = name partialToken, decimals = decimals partialToken,
                     tokenId = i\<rparr>))"

text \<open>The body of \<^verbatim>\<open>filteredAddressesAndIds.forEach\<close>: (localTokens, TokenDetailsPromises).\<close>

definition partitionEntry ::
  "factoryParams \<Rightarrow> nat \<Rightarrow> (string \<times> TokenDetails) list
   \<Rightarrow> TokenDetails list \<times> (error + TokenDetails option) list \<Rightarrow> string \<times> nat
   \<Rightarrow> TokenDetails list \<times> (error + TokenDetails option) list" where
  "partitionEntry p networkId allTokensFromApi acc entry =
     (case acc of (localTokens, promises) \<Rightarrow>
        case entry of (tokenAddress, i) \<Rightarrow>
          (case Map_get allTokensFromApi tokenAddress of
             Some tok \<Rightarrow> (localTokens @ [tok], promises)
           | None \<Rightarrow> (localTokens, promises @ [fullTokenPromise p networkId tokenAddress i])))"

definition updateTokenDetails ::
  "factoryParams \<Rightarrow> nat \<Rightarrow> nat \<Rightarrow> state \<Rightarrow> error + state" where
  "updateTokenDetails p networkId numTokens s =
     (case getFilteredIdsMap p networkId numTokens s of
        Inl e \<Rightarrow> Inl e
      | Inr filteredAddressesAndIds \<Rightarrow>
          let allTokensFromApi = Map_new (map (\<lambda>t. (address t, t)) (getTokens s networkId))
          in (case foldl (partitionEntry p networkId allTokensFromApi) ([], [])
                     filteredAddressesAndIds of
                (localTokens, promises) \<Rightarrow>
                  (case Promise_all promises of
                     Inl e \<Rightarrow> Inl e
                   | Inr results \<Rightarrow>
                       Inr (persistTokens networkId
                              (localTokens @ filter_notEmpty results) s))))"

subsection \<open>The orchestrator and the accessor\<close>

text \<open>
  \<^verbatim>\<open>updateTokens\<close> runs synchronously up to its first \<^verbatim>\<open>await\<close>: this part is
  \<open>updateTokens_start\<close>. The \<^verbatim>\<open>try\<close> block is \<open>updateTokens_try\<close> and
  \<open>updateTokens_resume\<close> adds the \<^verbatim>\<open>catch\<close>. Each \<^verbatim>\<open>throw\<close> of the block comes before its
  first write to the cache, so the handler runs on the state the block started from.
\<close>

definition updateTokens_start :: "nat \<Rightarrow> state \<Rightarrow> state" where
  "updateTokens_start networkId s = s\<lparr>areTokensUpdated := insert networkId (areTokensUpdated s)\<rparr>"

definition updateTokens_try :: "factoryParams \<Rightarrow> nat \<Rightarrow> state \<Rightarrow> error + state" where
  "updateTokens_try p networkId s =
     (case retry (retryAttempts p) (\<lambda>_. getNumTokens p networkId) of
        Inl e \<Rightarrow> Inl e
      | Inr numTokens \<Rightarrow>
          let tokens = getTokens s networkId
          in if numTokens > length tokens then updateTokenDetails p networkId numTokens s
             else updateTokenIds p networkId tokens 3 1000 True s)"

definition updateTokens_resume :: "factoryParams \<Rightarrow> nat \<Rightarrow> state \<Rightarrow> state" where
  "updateTokens_resume p networkId s =
     (case updateTokens_try p networkId s of
        Inr s' \<Rightarrow> s'
      | Inl e \<Rightarrow> s\<lparr>areTokensUpdated := areTokensUpdated s - {networkId}\<rparr>)"

definition updateTokens :: "factoryParams \<Rightarrow> nat \<Rightarrow> state \<Rightarrow> state" where
  "updateTokens p networkId s = updateTokens_resume p networkId (updateTokens_start networkId s)"

text \<open>
  The function that the factory returns. It starts \<^verbatim>\<open>updateTokens\<close> without awaiting it:
  the synchronous part runs at once and the rest is left in \<open>background\<close>.
\<close>

definition getTokensFactory :: "nat \<Rightarrow> state \<Rightarrow> TokenDetails list \<times> state" where
  "getTokensFactory networkId s =
     (let s' = (if networkId \<notin> areTokensUpdated s
                then (updateTokens_start networkId s)\<lparr>background := background s @ [networkId]\<rparr>
                else s)
      in (getTokens s' networkId, s'))"

text \<open>The oldest background \<^verbatim>\<open>updateTokens\<close> promise runs to its end.\<close>

definition runBackground :: "factoryParams \<Rightarrow> state \<Rightarrow> state" where
  "runBackground p s =
     (case background s of
        [] \<Rightarrow> s
      | networkId # rest \<Rightarrow> updateTokens_resume p networkId (s\<lparr>background := rest\<rparr>))"

text \<open>The state of a fresh factory over a given cache.\<close>

definition initialState :: "(nat \<Rightarrow> TokenDetails list) \<Rightarrow> state" where
  "initialState cache =
     \<lparr>tokenList = cache, persistCalls = [], areTokensUpdated = {}, timers = [], background = []\<rparr>"

subsection \<open>The accessor called repeatedly\<close>

fun accessorCalls :: "nat \<Rightarrow> nat \<Rightarrow> state \<Rightarrow> TokenDetails list list \<times> state" where
  "accessorCalls networkId 0 s = ([], s)"
| "accessorCalls networkId (Suc k) s =
     (case getTokensFactory networkId s of
        (l, s1) \<Rightarrow> (case accessorCalls networkId k s1 of (ls, s2) \<Rightarrow> (l # ls, s2)))"

subsection \<open>The id-only refresh as the specification words it\<close>

text \<open>
  The three groups of the specification, read off the answers of the contract. A token
  is not recognized when \<^verbatim>\<open>hasToken\<close> answers false; its query throws when \<^verbatim>\<open>hasToken\<close>
  rejects, or answers true and \<^verbatim>\<open>getTokenIdByAddress\<close> rejects; otherwise it gets the id
  that the contract returns.
\<close>

definition notRecognized :: "factoryParams \<Rightarrow> nat \<Rightarrow> string \<Rightarrow> bool" where
  "notRecognized p networkId a = (hasToken p networkId a = Inr False)"

definition queryThrows :: "factoryParams \<Rightarrow> nat \<Rightarrow> TokenDetails \<Rightarrow> bool" where
  "queryThrows p networkId t =
     (case hasToken p networkId (address t) of
        Inl e \<Rightarrow> True
      | Inr has \<Rightarrow> has \<and> (case getTokenIdByAddress p networkId (address t) of
                             Inl e \<Rightarrow> True | Inr i \<Rightarrow> False))"

definition refreshedId :: "factoryParams \<Rightarrow> nat \<Rightarrow> string \<Rightarrow> nat option" where
  "refreshedId p networkId a =
     (case hasToken p networkId a of
        Inl e \<Rightarrow> None
      | Inr has \<Rightarrow> if has then (case getTokenIdByAddress p networkId a of
                               Inl e \<Rightarrow> None | Inr i \<Rightarrow> Some i)
                  else None)"

text \<open>
  The updated record of an address: the token of the pass with that address (the last
  one, should the pass hold several) with its id overwritten.
\<close>

definition updatedRecord ::
  "factoryParams \<Rightarrow> nat \<Rightarrow> TokenDetails list \<Rightarrow> string \<Rightarrow> TokenDetails option" where
  "updatedRecord p networkId tokens a =
     (case refreshedId p networkId a of
        None \<Rightarrow> None
      | Some i \<Rightarrow> (case find (\<lambda>t. address t = a) (rev tokens) of
                    None \<Rightarrow> None
                  | Some t \<Rightarrow> Some (t\<lparr>tokenId := i\<rparr>)))"

text \<open>
  The cached list with the addresses of the pass that the contract does not recognize
  dropped and the updated records put in the place of the old ones.
\<close>

definition refreshedList ::
  "factoryParams \<Rightarrow> nat \<Rightarrow> TokenDetails list \<Rightarrow> TokenDetails list \<Rightarrow> TokenDetails list" where
  "refreshedList p networkId tokens cached =
     map (\<lambda>t. case updatedRecord p networkId tokens (address t) of Some u \<Rightarrow> u | None \<Rightarrow> t)
       (filter (\<lambda>t. \<not> (address t \<in> address ` set tokens \<and> notRecognized p networkId (address t)))
          cached)"

subsection \<open>The full reconciliation as the specification words it\<close>

text \<open>
  An eligible address is known when the cache holds a record for it (the last one,
  should it hold several); the known tokens are these records, in the order of the
  eligible map. The other eligible addresses are newly eligible; the resolved tokens are
  the metadata of those whose probe answered with a record, each with the slot id of
  the eligible map.
\<close>

definition cachedToken :: "state \<Rightarrow> nat \<Rightarrow> string \<Rightarrow> TokenDetails option" where
  "cachedToken s networkId a = find (\<lambda>t. address t = a) (rev (getTokens s networkId))"

definition knownTokens :: "state \<Rightarrow> nat \<Rightarrow> (string \<times> nat) list \<Rightarrow> TokenDetails list" where
  "knownTokens s networkId eligible =
     filter_notEmpty (map (\<lambda>(a, i). cachedToken s networkId a) eligible)"

definition resolvedToken :: "factoryParams \<Rightarrow> nat \<Rightarrow> string \<Rightarrow> nat \<Rightarrow> TokenDetails option" where
  "resolvedToken p networkId a i =
     (case getTokenFromErc20 p networkId a of
        Inl e \<Rightarrow> None
      | Inr None \<Rightarrow> None
      | Inr (Some d) \<Rightarrow>
          Some \<lparr>address = address d, symbol = symbol d, name = name d, decimals = decimals d,
                tokenId = i\<rparr>)"

definition resolvedTokens ::
  "factoryParams \<Rightarrow> state \<Rightarrow> nat \<Rightarrow> (string \<times> nat) list \<Rightarrow> TokenDetails list" where
  "resolvedTokens p s networkId eligible =
     filter_notEmpty
       (map (\<lambda>(a, i). resolvedToken p networkId a i)
          (filter (\<lambda>(a, i). cachedToken s networkId a = None) eligible))"

text \<open>No probe of a newly eligible address rejects (it may answer \<^verbatim>\<open>null\<close>).\<close>

definition probeRejects :: "factoryParams \<Rightarrow> nat \<Rightarrow> string \<Rightarrow> bool" where
  "probeRejects p networkId a =
     (case getTokenFromErc20 p networkId a of Inl e \<Rightarrow> True | Inr r \<Rightarrow> False)"

definition probesSettle :: "factoryParams \<Rightarrow> state \<Rightarrow> nat \<Rightarrow> (string \<times> nat) list \<Rightarrow> bool" where
  "probesSettle p s networkId eligible =
     (\<forall>(a, i)\<in>set eligible. cachedToken s networkId a = None \<longrightarrow> \<not> probeRejects p networkId a)"

text \<open>
  Modelled from the spec: the metadata resolver \<^verbatim>\<open>getTokenFromErc20\<close> of the repository is
  absent from the sources. Given a bare address it resolves the metadata of that
  address: a record it returns carries the address it was asked about.
\<close>

definition resolverEchoes :: "factoryParams \<Rightarrow> nat \<Rightarrow> (string \<times> nat) list \<Rightarrow> bool" where
  "resolverEchoes p networkId eligible =
     (\<forall>(a, i)\<in>set eligible.
        case getTokenFromErc20 p networkId a of
          Inr (Some d) \<Rightarrow> address d = a
        | _ \<Rightarrow> True)"

subsection \<open>Example collaborators\<close>

text \<open>
  Network 4 caches the tokens A and B; the contract lists A, B and C in the slots 0, 1
  and 2, every call succeeds, no registry is configured and the resolver knows C.
\<close>

definition tokenA :: TokenDetails where
  "tokenA = \<lparr>address = ''0xA'', symbol = ''AAA'', name = ''Token A'', decimals = 18, tokenId = 0\<rparr>"

definition tokenB :: TokenDetails where
  "tokenB = \<lparr>address = ''0xB'', symbol = ''BBB'', name = ''Token B'', decimals = 18, tokenId = 1\<rparr>"

definition erc20C :: TokenErc20 where
  "erc20C = \<lparr>address = ''0xC'', symbol = ''CCC'', name = ''Token C'', decimals = 6\<rparr>"

definition tokenC :: TokenDetails where
  "tokenC = \<lparr>address = ''0xC'', symbol = ''CCC'', name = ''Token C'', decimals = 6, tokenId = 2\<rparr>"

definition exampleParams :: factoryParams where
  "exampleParams =
     \<lparr>hasToken = (\<lambda>n a. Inr (a = ''0xA'' \<or> a = ''0xB'' \<or> a = ''0xC'')),
      getTokenIdByAddress = (\<lambda>n a. if a = ''0xA'' then Inr 0 else if a = ''0xB'' then Inr 1
                                    else if a = ''0xC'' then Inr 2
                                    else Inl (CallFailed ''no such token'')),
      getTokenAddressById = (\<lambda>n i. if i = 0 then Inr ''0xA'' else if i = 1 then Inr ''0xB''
                                    else if i = 2 then Inr ''0xC''
                                    else Inl (CallFailed ''no such slot'')),
      getNumTokens = (\<lambda>n. Inr 3),
      tcrApi = None,
      getTokenFromErc20 = (\<lambda>n a. if a = ''0xC'' then Inr (Some erc20C) else Inr None),
      retryAttempts = 2\<rparr>"

definition exampleState :: state where
  "exampleState = initialState (\<lambda>n. if n = 4 then [tokenA, tokenB] else [])"

definition exampleState3 :: state where
  "exampleState3 = initialState (\<lambda>n. if n = 4 then [tokenA, tokenB, tokenC] else [])"

text \<open>The same with a registry that approves A, B and C.\<close>

definition registryParams :: factoryParams where
  "registryParams = exampleParams\<lparr>tcrApi := Some (\<lambda>n. Inr [''0xA'', ''0xB'', ''0xC''])\<rparr>"

text \<open>The contract has delisted B and moved A to slot 7.\<close>

definition delistedParams :: factoryParams where
  "delistedParams =
     exampleParams\<lparr>hasToken := (\<lambda>n a. Inr (a = ''0xA'')),
                    getTokenIdByAddress := (\<lambda>n a. if a = ''0xA'' then Inr 7
                                                   else Inl (CallFailed ''no such token''))\<rparr>"

text \<open>Every query about B times out.\<close>

definition flakyParams :: factoryParams where
  "flakyParams =
     exampleParams\<lparr>hasToken := (\<lambda>n a. if a = ''0xB'' then Inl (CallFailed ''timeout'')
                                       else Inr True)\<rparr>"

text \<open>The token count cannot be fetched.\<close>

definition downParams :: factoryParams where
  "downParams = exampleParams\<lparr>getNumTokens := (\<lambda>n. Inl (CallFailed ''node down''))\<rparr>"

text \<open>A fourth slot holds X, approved by the registry, which is not an ERC20 contract.\<close>

definition nullProbeParams :: factoryParams where
  "nullProbeParams =
     exampleParams\<lparr>getTokenAddressById :=
                      (\<lambda>n i. if i = 0 then Inr ''0xA'' else if i = 1 then Inr ''0xB''
                              else if i = 2 then Inr ''0xC'' else if i = 3 then Inr ''0xX''
                              else Inl (CallFailed ''no such slot'')),
                    getNumTokens := (\<lambda>n. Inr 4),
                    tcrApi := Some (\<lambda>n. Inr [''0xA'', ''0xB'', ''0xC'', ''0xX''])\<rparr>"

text \<open>A and B have traded slots on the contract; the cache still has A at 0 and B at 1.\<close>

definition swappedParams :: factoryParams where
  "swappedParams =
     exampleParams\<lparr>getTokenAddressById :=
                      (\<lambda>n i. if i = 0 then Inr ''0xB'' else if i = 1 then Inr ''0xA''
                              else if i = 2 then Inr ''0xC''
                              else Inl (CallFailed ''no such slot'')),
                    tcrApi := Some (\<lambda>n. Inr [''0xA'', ''0xB'', ''0xC''])\<rparr>"

lemmas example_defs = tokenA_def tokenB_def tokenC_def erc20C_def exampleParams_def
  exampleState_def exampleState3_def registryParams_def delistedParams_def flakyParams_def
  downParams_def nullProbeParams_def swappedParams_def initialState_def getTokens_def

lemmas container_defs = Map_new_def Map_set_def Map_get_def Set_new_def Set_add_def

section \<open>Properties of the containers and helpers\<close>

lemma upt_3: "[0..<3] = [0, 1, 2]"
  by code_simp

lemma upt_4: "[0..<4] = [0, 1, 2, 3]"
  by code_simp

lemma Map_get_Map_set: "Map_get (Map_set m k v) = (Map_get m)(k \<mapsto> v)"
  by (simp add: Map_get_def Map_set_def update_conv' fun_eq_iff)

lemma Map_set_nonempty: "Map_set m k v \<noteq> []"
  by (simp add: Map_set_def)

lemma foldl_Map_set_get:
  "Map_get (foldl (\<lambda>m (k, v). Map_set m k v) m0 es) = Map_get m0 ++ map_of (rev es)"
proof (induction es arbitrary: m0)
  case Nil
  show ?case by simp
next
  case (Cons e es)
  obtain k v where e: "e = (k, v)" by (cases e)
  show ?case
    by (simp add: e Cons.IH Map_get_Map_set map_add_upd_left)
      (auto simp: map_add_def fun_eq_iff split: option.splits)
qed

lemma Map_get_Map_new: "Map_get (Map_new es) = map_of (rev es)"
proof -
  have "Map_get ([] :: ('a \<times> 'b) list) = Map.empty" by (simp add: Map_get_def fun_eq_iff)
  then show ?thesis by (simp add: Map_new_def foldl_Map_set_get)
qed

lemma set_Set_add: "set (Set_add xs x) = insert x (set xs)"
  by (auto simp: Set_add_def)

lemma retry_const: "retry n (\<lambda>_. r) = r"
  by (induction n) (auto split: sum.splits)

lemma set_filter_notEmpty: "set (filter_notEmpty xs) = {x. Some x \<in> set xs}"
  by (induction xs rule: filter_notEmpty.induct) auto

lemma filter_notEmpty_Cons:
  "filter_notEmpty (x # xs) =
     (case x of None \<Rightarrow> filter_notEmpty xs | Some v \<Rightarrow> v # filter_notEmpty xs)"
  by (cases x) simp_all

lemma Promise_all_Inr: "Promise_all (map Inr vs) = Inr vs"
  by (induction vs) auto

lemma Promise_all_Inr_iff: "Promise_all rs = Inr vs \<longleftrightarrow> rs = map Inr vs"
proof
  show "Promise_all rs = Inr vs \<Longrightarrow> rs = map Inr vs"
    by (induction rs arbitrary: vs) (auto split: sum.splits)
qed (simp add: Promise_all_Inr)

lemma map_of_keyed: "map_of (map (\<lambda>t. (f t, t)) xs) a = find (\<lambda>t. f t = a) xs"
  by (induction xs) auto

lemma find_Some_mem: "find P xs = Some x \<Longrightarrow> x \<in> set xs \<and> P x"
  by (induction xs) (auto split: if_splits)

section \<open>The id-only refresh computes the three groups\<close>

lemma result_cases:
  "updateTokenIdOrIndicateFailure p n t =
     (if notRecognized p n (address t) then \<lparr>token = t, removeFlag = True, failed = False\<rparr>
      else if queryThrows p n t then \<lparr>token = t, removeFlag = False, failed = True\<rparr>
      else \<lparr>token = t\<lparr>tokenId := the (refreshedId p n (address t))\<rparr>,
             removeFlag = False, failed = False\<rparr>)"
  by (auto simp: updateTokenIdOrIndicateFailure_def notRecognized_def queryThrows_def
        refreshedId_def split: sum.splits)

lemma refreshedId_iff:
  "refreshedId p n (address t) = None \<longleftrightarrow> notRecognized p n (address t) \<or> queryThrows p n t"
  by (auto simp: notRecognized_def queryThrows_def refreshedId_def split: sum.splits)

lemma not_both: "notRecognized p n (address t) \<Longrightarrow> \<not> queryThrows p n t"
  by (auto simp: notRecognized_def queryThrows_def split: sum.splits)

lemma classifyResults_snoc:
  "classifyResults (rs @ [r]) = classifyResult (classifyResults rs) r"
  by (simp add: classifyResults_def)

lemma classifyResult_cases:
  "classifyResult (u, f, r) (updateTokenIdOrIndicateFailure p n t) =
     (if notRecognized p n (address t) then (u, f, Set_add r (address t))
      else if queryThrows p n t then (u, f @ [t], r)
      else (Map_set u (address t) (t\<lparr>tokenId := the (refreshedId p n (address t))\<rparr>), f, r))"
  by (simp add: classifyResult_def result_cases)

lemma classify_failed:
  "fst (snd (classifyResults (map (updateTokenIdOrIndicateFailure p n) ts)))
     = filter (queryThrows p n) ts"
proof (induction ts rule: rev_induct)
  case Nil
  show ?case by (simp add: classifyResults_def)
next
  case (snoc t ts)
  obtain u f r where c: "classifyResults (map (updateTokenIdOrIndicateFailure p n) ts) = (u, f, r)"
    by (cases "classifyResults (map (updateTokenIdOrIndicateFailure p n) ts)")
  with snoc show ?case
    by (simp add: classifyResults_snoc classifyResult_cases not_both)
qed

lemma classify_toRemove:
  "set (snd (snd (classifyResults (map (updateTokenIdOrIndicateFailure p n) ts))))
     = {a \<in> address ` set ts. notRecognized p n a}"
proof (induction ts rule: rev_induct)
  case Nil
  show ?case by (simp add: classifyResults_def)
next
  case (snoc t ts)
  obtain u f r where c: "classifyResults (map (updateTokenIdOrIndicateFailure p n) ts) = (u, f, r)"
    by (cases "classifyResults (map (updateTokenIdOrIndicateFailure p n) ts)")
  with snoc show ?case
    by (auto simp: classifyResults_snoc classifyResult_cases set_Set_add)
qed

lemma classify_updated:
  "Map_get (fst (classifyResults (map (updateTokenIdOrIndicateFailure p n) ts))) a
     = updatedRecord p n ts a"
proof (induction ts rule: rev_induct)
  case Nil
  show ?case by (simp add: classifyResults_def updatedRecord_def Map_get_def split: option.splits)
next
  case (snoc t ts)
  obtain u f r where c: "classifyResults (map (updateTokenIdOrIndicateFailure p n) ts) = (u, f, r)"
    by (cases "classifyResults (map (updateTokenIdOrIndicateFailure p n) ts)")
  from snoc c have ih: "Map_get u a = updatedRecord p n ts a" by simp
  show ?case
  proof (cases "refreshedId p n (address t)")
    case None
    then have "notRecognized p n (address t) \<or> queryThrows p n t" by (simp add: refreshedId_iff)
    then have "fst (classifyResults (map (updateTokenIdOrIndicateFailure p n) (ts @ [t]))) = u"
      by (auto simp: classifyResults_snoc classifyResult_cases c)
    moreover have "updatedRecord p n (ts @ [t]) a = updatedRecord p n ts a"
      using None by (cases "address t = a") (auto simp: updatedRecord_def split: option.splits)
    ultimately show ?thesis using ih by simp
  next
    case (Some i)
    then have no: "\<not> notRecognized p n (address t)" "\<not> queryThrows p n t"
      using refreshedId_iff [of p n t] by auto
    then have "fst (classifyResults (map (updateTokenIdOrIndicateFailure p n) (ts @ [t])))
        = Map_set u (address t) (t\<lparr>tokenId := i\<rparr>)"
      by (simp add: classifyResults_snoc classifyResult_cases c Some)
    moreover have "updatedRecord p n (ts @ [t]) a
        = (if address t = a then Some (t\<lparr>tokenId := i\<rparr>) else updatedRecord p n ts a)"
      using Some by (auto simp: updatedRecord_def split: option.splits)
    ultimately show ?thesis using ih by (simp add: Map_get_Map_set)
  qed
qed

lemma classify_updated_empty:
  "fst (classifyResults (map (updateTokenIdOrIndicateFailure p n) ts)) = []
     \<longleftrightarrow> (\<forall>t\<in>set ts. refreshedId p n (address t) = None)"
proof (induction ts rule: rev_induct)
  case Nil
  show ?case by (simp add: classifyResults_def)
next
  case (snoc t ts)
  obtain u f r where c: "classifyResults (map (updateTokenIdOrIndicateFailure p n) ts) = (u, f, r)"
    by (cases "classifyResults (map (updateTokenIdOrIndicateFailure p n) ts)")
  show ?case
  proof (cases "refreshedId p n (address t)")
    case None
    then have "notRecognized p n (address t) \<or> queryThrows p n t" by (simp add: refreshedId_iff)
    then have "fst (classifyResults (map (updateTokenIdOrIndicateFailure p n) (ts @ [t]))) = u"
      by (auto simp: classifyResults_snoc classifyResult_cases c)
    with snoc c None show ?thesis by simp
  next
    case (Some i)
    then have no: "\<not> notRecognized p n (address t)" "\<not> queryThrows p n t"
      using refreshedId_iff [of p n t] by auto
    then have "fst (classifyResults (map (updateTokenIdOrIndicateFailure p n) (ts @ [t])))
        = Map_set u (address t) (t\<lparr>tokenId := i\<rparr>)"
      by (simp add: classifyResults_snoc classifyResult_cases c Some)
    with Some show ?thesis by (simp add: Map_set_nonempty)
  qed
qed

lemma rebuild_foldl:
  "foldl (\<lambda>acc tok.
        if address tok \<in> set toRemove then acc
        else acc @ [case Map_get updated (address tok) of Some u \<Rightarrow> u | None \<Rightarrow> tok])
       acc0 cached
   = acc0 @ map (\<lambda>t. case Map_get updated (address t) of Some u \<Rightarrow> u | None \<Rightarrow> t)
             (filter (\<lambda>t. address t \<notin> set toRemove) cached)"
  by (induction cached arbitrary: acc0) auto

lemma rebuildTokenList_eq:
  "rebuildTokenList updated toRemove cached
   = map (\<lambda>t. case Map_get updated (address t) of Some u \<Rightarrow> u | None \<Rightarrow> t)
             (filter (\<lambda>t. address t \<notin> set toRemove) cached)"
  by (simp add: rebuildTokenList_def rebuild_foldl)

lemma rebuild_classified:
  assumes "classifyResults (map (updateTokenIdOrIndicateFailure p n) ts) = (u, f, r)"
  shows "rebuildTokenList u r cached = refreshedList p n ts cached"
proof -
  have u: "Map_get u a = updatedRecord p n ts a" for a
    using classify_updated [of p n ts a] assms by simp
  have r: "set r = {a \<in> address ` set ts. notRecognized p n a}"
    using classify_toRemove [of p n ts] assms by simp
  show ?thesis
    unfolding rebuildTokenList_eq refreshedList_def u r by simp
qed

text \<open>What a pass of \<^verbatim>\<open>updateTokenIds\<close> that does not throw leaves behind.\<close>

lemma updateTokenIds_result:
  assumes "0 < m"
  shows "updateTokenIds p n ts m d ebo s =
     Inr (let s1 = (if \<exists>t\<in>set ts. notRecognized p n (address t) \<or> refreshedId p n (address t) \<noteq> None
                    then persistTokens n (refreshedList p n ts (getTokens s n)) s else s)
          in if filter (queryThrows p n) ts \<noteq> []
             then setTimeout \<lparr>rc_networkId = n, rc_tokens = filter (queryThrows p n) ts,
                              rc_maxRetries = m - 1,
                              rc_retryDelay = d * (if ebo then 2 else 1)\<rparr> d s1
             else s1)"
proof -
  obtain u f r where c: "classifyResults (map (updateTokenIdOrIndicateFailure p n) ts) = (u, f, r)"
    by (cases "classifyResults (map (updateTokenIdOrIndicateFailure p n) ts)")
  have f: "f = filter (queryThrows p n) ts"
    using classify_failed [of p n ts] c by simp
  have r: "r \<noteq> [] \<longleftrightarrow> (\<exists>t\<in>set ts. notRecognized p n (address t))"
  proof -
    have "set r = {a \<in> address ` set ts. notRecognized p n a}"
      using classify_toRemove [of p n ts] c by simp
    then have "set r \<noteq> {} \<longleftrightarrow> (\<exists>t\<in>set ts. notRecognized p n (address t))" by auto
    then show ?thesis by simp
  qed
  have u: "u \<noteq> [] \<longleftrightarrow> (\<exists>t\<in>set ts. refreshedId p n (address t) \<noteq> None)"
    using classify_updated_empty [of p n ts] c by simp
  have cond: "(r \<noteq> [] \<or> u \<noteq> [])
      \<longleftrightarrow> (\<exists>t\<in>set ts. notRecognized p n (address t) \<or> refreshedId p n (address t) \<noteq> None)"
    unfolding r u by blast
  have l: "rebuildTokenList u r (getTokens s n) = refreshedList p n ts (getTokens s n)"
    by (rule rebuild_classified [OF c])
  show ?thesis
    using assms unfolding updateTokenIds_def c
    by (simp only: prod.case cond l f Let_def) simp
qed

lemma updatedRecord_address: "updatedRecord p n ts a = Some u \<Longrightarrow> address u = a"
  by (auto simp: updatedRecord_def split: option.splits dest: find_Some_mem)

lemma refreshedList_addresses:
  "address ` set (refreshedList p n ts cached)
     = {a \<in> address ` set cached. \<not> (a \<in> address ` set ts \<and> notRecognized p n a)}"
proof -
  have "address (case updatedRecord p n ts (address t) of Some u \<Rightarrow> u | None \<Rightarrow> t) = address t"
    for t
    by (auto split: option.splits dest: updatedRecord_address)
  then have "map address (refreshedList p n ts cached)
     = map address
         (filter (\<lambda>t. \<not> (address t \<in> address ` set ts \<and> notRecognized p n (address t))) cached)"
    by (simp add: refreshedList_def)
  then have "set (map address (refreshedList p n ts cached))
     = set (map address
         (filter (\<lambda>t. \<not> (address t \<in> address ` set ts \<and> notRecognized p n (address t))) cached))"
    by simp
  then show ?thesis by auto
qed

lemma accessor_flagged:
  "n \<in> areTokensUpdated s \<Longrightarrow> accessorCalls n k s = (replicate k (getTokens s n), s)"
  by (induction k) (simp_all add: getTokensFactory_def)

text \<open>
  The first access of a network, followed by the background run it started, is one run
  of \<^verbatim>\<open>updateTokens\<close>.
\<close>

lemma accessor_then_background:
  assumes "n \<notin> areTokensUpdated s" and "background s = []"
  shows "runBackground p (snd (getTokensFactory n s)) = updateTokens p n s"
proof -
  have "(updateTokens_start n s)\<lparr>background := []\<rparr> = updateTokens_start n s"
    using assms(2) by (simp add: updateTokens_start_def)
  then show ?thesis
    using assms by (simp add: runBackground_def getTokensFactory_def updateTokens_def Let_def)
qed

section \<open>The full reconciliation computes the merge\<close>

lemma allTokensFromApi_get:
  "Map_get (Map_new (map (\<lambda>t. (address t, t)) (getTokens s n))) a = cachedToken s n a"
  by (simp add: Map_get_Map_new cachedToken_def rev_map map_of_keyed)

lemma partitionEntry_apply:
  "partitionEntry p n all (l0, p0) (a, i) =
     (case Map_get all a of
        Some tok \<Rightarrow> (l0 @ [tok], p0)
      | None \<Rightarrow> (l0, p0 @ [fullTokenPromise p n a i]))"
  by (simp add: partitionEntry_def)

lemma partition_foldl:
  "foldl (partitionEntry p n all) (l0, p0) m =
     (l0 @ filter_notEmpty (map (\<lambda>(a, i). Map_get all a) m),
      p0 @ map (\<lambda>(a, i). fullTokenPromise p n a i) (filter (\<lambda>(a, i). Map_get all a = None) m))"
proof (induction m arbitrary: l0 p0)
  case Nil
  show ?case by simp
next
  case (Cons e m)
  obtain a i where e: "e = (a, i)" by (cases e)
  show ?case
    by (cases "Map_get all a") (simp_all add: e Cons.IH partitionEntry_apply)
qed

lemma fullTokenPromise_eq:
  "fullTokenPromise p n a i =
     (case getTokenFromErc20 p n a of Inl e \<Rightarrow> Inl e | Inr r \<Rightarrow> Inr (resolvedToken p n a i))"
  by (simp add: fullTokenPromise_def getErc20DetailsOrAddress_def resolvedToken_def
        split: sum.splits option.splits)

lemma promises_settle:
  assumes "probesSettle p s n m"
  shows "map (\<lambda>(a, i). fullTokenPromise p n a i) (filter (\<lambda>(a, i). cachedToken s n a = None) m)
     = map Inr (map (\<lambda>(a, i). resolvedToken p n a i)
                  (filter (\<lambda>(a, i). cachedToken s n a = None) m))"
  using assms
  by (induction m)
    (auto simp: probesSettle_def probeRejects_def fullTokenPromise_eq split: sum.splits)

lemma promises_settled:
  assumes "map (\<lambda>(a, i). fullTokenPromise p n a i) (filter (\<lambda>(a, i). cachedToken s n a = None) m)
     = map Inr vs"
  shows "probesSettle p s n m"
  using assms
proof (induction m arbitrary: vs)
  case Nil
  show ?case by (simp add: probesSettle_def)
next
  case (Cons e m)
  obtain a i where e: "e = (a, i)" by (cases e)
  show ?case
  proof (cases "cachedToken s n a")
    case None
    with Cons.prems e obtain v vs' where vs: "vs = v # vs'"
      and h: "fullTokenPromise p n a i = Inr v"
      and t: "map (\<lambda>(a, i). fullTokenPromise p n a i)
                (filter (\<lambda>(a, i). cachedToken s n a = None) m) = map Inr vs'"
      by (cases vs) auto
    from h have "\<not> probeRejects p n a"
      by (auto simp: fullTokenPromise_eq probeRejects_def split: sum.splits)
    with Cons.IH [OF t] show ?thesis by (simp add: probesSettle_def e)
  next
    case (Some t)
    with Cons.prems e have
      "map (\<lambda>(a, i). fullTokenPromise p n a i) (filter (\<lambda>(a, i). cachedToken s n a = None) m)
              = map Inr vs" by simp
    from Cons.IH [OF this] Some show ?thesis by (simp add: probesSettle_def e)
  qed
qed

lemma updateTokenDetails_unfold:
  assumes "getFilteredIdsMap p n k s = Inr m"
  shows "updateTokenDetails p n k s =
     (case Promise_all (map (\<lambda>(a, i). fullTokenPromise p n a i)
                          (filter (\<lambda>(a, i). cachedToken s n a = None) m)) of
        Inl e \<Rightarrow> Inl e
      | Inr results \<Rightarrow>
          Inr (persistTokens n (knownTokens s n m @ filter_notEmpty results) s))"
proof -
  let ?all = "Map_new (map (\<lambda>t. (address t, t)) (getTokens s n))"
  have K: "filter_notEmpty (map (\<lambda>(a, i). Map_get ?all a) m) = knownTokens s n m"
    by (simp add: knownTokens_def allTokensFromApi_get)
  have F: "filter (\<lambda>(a, i). Map_get ?all a = None) m
             = filter (\<lambda>(a, i). cachedToken s n a = None) m"
    by (simp add: allTokensFromApi_get)
  show ?thesis
    unfolding updateTokenDetails_def assms Let_def
    by (simp only: sum.case partition_foldl prod.case append_Nil K F)
qed

lemma updateTokenDetails_settled:
  assumes "getFilteredIdsMap p n k s = Inr m" and "probesSettle p s n m"
  shows "updateTokenDetails p n k s
     = Inr (persistTokens n (knownTokens s n m @ resolvedTokens p s n m) s)"
  unfolding updateTokenDetails_unfold [OF assms(1)]
  by (simp only: promises_settle [OF assms(2)] Promise_all_Inr sum.case resolvedTokens_def)

lemma updateTokenDetails_Inr:
  assumes "updateTokenDetails p n k s = Inr s'" and "getFilteredIdsMap p n k s = Inr m"
  shows "probesSettle p s n m"
proof -
  from assms obtain vs where
    "Promise_all (map (\<lambda>(a, i). fullTokenPromise p n a i)
        (filter (\<lambda>(a, i). cachedToken s n a = None) m)) = Inr vs"
    by (auto simp: updateTokenDetails_unfold split: sum.splits)
  then show ?thesis
    by (auto simp: Promise_all_Inr_iff intro: promises_settled)
qed

lemma cachedToken_Some:
  "cachedToken s n a = Some t \<Longrightarrow> t \<in> set (getTokens s n) \<and> address t = a"
  using find_Some_mem [of "\<lambda>t. address t = a" "rev (getTokens s n)" t]
  by (simp add: cachedToken_def)

lemma knownTokens_mem:
  "t \<in> set (knownTokens s n m) \<longleftrightarrow> (\<exists>(a, i)\<in>set m. cachedToken s n a = Some t)"
  by (force simp: knownTokens_def set_filter_notEmpty)

lemma resolvedTokens_mem:
  "t \<in> set (resolvedTokens p s n m)
     \<longleftrightarrow> (\<exists>(a, i)\<in>set m. cachedToken s n a = None \<and> resolvedToken p n a i = Some t)"
  by (force simp: resolvedTokens_def set_filter_notEmpty)

lemma resolvedToken_address:
  assumes "resolverEchoes p n m" and "(a, i) \<in> set m" and "resolvedToken p n a i = Some t"
  shows "address t = a \<and> tokenId t = i"
  using assms
  by (fastforce simp: resolverEchoes_def resolvedToken_def split: sum.splits option.splits)

lemma resolvedToken_id: "resolvedToken p n a i = Some t \<Longrightarrow> tokenId t = i"
  by (auto simp: resolvedToken_def split: sum.splits option.splits)

lemma resolvedTokens_drop_null:
  assumes "getTokenFromErc20 p n x = Inr None"
  shows "resolvedTokens p s n (filter (\<lambda>(a, j). a \<noteq> x) m) = resolvedTokens p s n m"
proof -
  have "resolvedToken p n x j = None" for j
    using assms by (simp add: resolvedToken_def)
  then show ?thesis
    by (induction m) (auto simp: resolvedTokens_def filter_notEmpty_Cons split: option.splits)
qed

section \<open>The examples, evaluated\<close>

lemma example_cached:
  "cachedToken exampleState 4 ''0xA'' = Some tokenA"
  "cachedToken exampleState 4 ''0xB'' = Some tokenB"
  "cachedToken exampleState 4 ''0xC'' = None"
  "cachedToken exampleState 4 ''0xX'' = None"
  by (simp_all add: cachedToken_def example_defs)

lemma registry_map:
  "getFilteredIdsMap registryParams 4 3 exampleState
     = Inr [(''0xA'', 0), (''0xB'', 1), (''0xC'', 2)]"
  by (simp add: getFilteredIdsMap_def retry_const fetchTcrAddresses_def fetchAddressesAndIds_def
        upt_3 container_defs example_defs)

lemma registry_pass:
  "updateTokenDetails registryParams 4 3 exampleState
     = Inr (persistTokens 4 [tokenA, tokenB, tokenC] exampleState)"
proof -
  let ?m = "[(''0xA'', 0), (''0xB'', 1), (''0xC'', 2)] :: (string \<times> nat) list"
  have s: "probesSettle registryParams exampleState 4 ?m"
    by (simp add: probesSettle_def probeRejects_def example_cached) (simp add: example_defs)
  have k: "knownTokens exampleState 4 ?m = [tokenA, tokenB]"
    by (simp add: knownTokens_def example_cached)
  have r: "resolvedTokens registryParams exampleState 4 ?m = [tokenC]"
    by (simp add: resolvedTokens_def example_cached resolvedToken_def) (simp add: example_defs)
  show ?thesis
    unfolding updateTokenDetails_settled [OF registry_map s] k r by simp
qed

lemma registry_echo:
  "resolverEchoes registryParams 4 [(''0xA'', 0), (''0xB'', 1), (''0xC'', 2)]"
  by (simp add: resolverEchoes_def example_defs)

lemma nullProbe_map:
  "getFilteredIdsMap nullProbeParams 4 4 exampleState
     = Inr [(''0xA'', 0), (''0xB'', 1), (''0xC'', 2), (''0xX'', 3)]"
  by (simp add: getFilteredIdsMap_def retry_const fetchTcrAddresses_def fetchAddressesAndIds_def
        upt_4 container_defs example_defs)

lemma swapped_map:
  "getFilteredIdsMap swappedParams 4 3 exampleState
     = Inr [(''0xB'', 0), (''0xA'', 1), (''0xC'', 2)]"
  by (simp add: getFilteredIdsMap_def retry_const fetchTcrAddresses_def fetchAddressesAndIds_def
        upt_3 container_defs example_defs)

lemma swapped_pass:
  "updateTokenDetails swappedParams 4 3 exampleState
     = Inr (persistTokens 4 [tokenB, tokenA, tokenC] exampleState)"
proof -
  let ?m = "[(''0xB'', 0), (''0xA'', 1), (''0xC'', 2)] :: (string \<times> nat) list"
  have s: "probesSettle swappedParams exampleState 4 ?m"
    by (simp add: probesSettle_def probeRejects_def example_cached) (simp add: example_defs)
  have k: "knownTokens exampleState 4 ?m = [tokenB, tokenA]"
    by (simp add: knownTokens_def example_cached)
  have r: "resolvedTokens swappedParams exampleState 4 ?m = [tokenC]"
    by (simp add: resolvedTokens_def example_cached resolvedToken_def) (simp add: example_defs)
  show ?thesis
    unfolding updateTokenDetails_settled [OF swapped_map s] k r by simp
qed

lemma delisted_list:
  "refreshedList delistedParams 4 [tokenA, tokenB] [tokenA, tokenB] = [tokenA\<lparr>tokenId := 7\<rparr>]"
  by (simp add: refreshedList_def updatedRecord_def refreshedId_def notRecognized_def
        example_defs)

section \<open>The fallback without a registry\<close>

lemma fallback_map:
  assumes "tcrApi p = None \<or> (\<exists>api. tcrApi p = Some api \<and> api n = Inr [])"
    and "getTokens s n = [A, B]" and "address A \<noteq> address B"
    and "c \<noteq> address A" and "c \<noteq> address B"
    and "getTokenAddressById p n 0 = Inr (address A)"
    and "getTokenAddressById p n 1 = Inr (address B)"
    and "getTokenAddressById p n 2 = Inr c"
  shows "getFilteredIdsMap p n 3 s = Inr [(address A, 0), (address B, 1)]"
proof -
  have tcr: "fetchTcrAddresses p n = Inr []"
    using assms(1) by (auto simp: fetchTcrAddresses_def Set_new_def)
  have scan: "fetchAddressesAndIds p n 3 = Inr [(address A, 0), (address B, 1), (c, 2)]"
    using assms(3-8)
    by (simp add: fetchAddressesAndIds_def upt_3 Map_new_def Map_set_def)
  show ?thesis
    using assms(2-5)
    by (simp add: getFilteredIdsMap_def retry_const tcr scan Map_get_def Map_new_def Map_set_def)
qed

lemma fallback_pass:
  assumes "tcrApi p = None \<or> (\<exists>api. tcrApi p = Some api \<and> api n = Inr [])"
    and "getTokens s n = [A, B]" and "address A \<noteq> address B"
    and "c \<noteq> address A" and "c \<noteq> address B"
    and "getTokenAddressById p n 0 = Inr (address A)"
    and "getTokenAddressById p n 1 = Inr (address B)"
    and "getTokenAddressById p n 2 = Inr c"
  shows "updateTokenDetails p n 3 s = Inr (persistTokens n [A, B] s)"
proof -
  let ?m = "[(address A, 0), (address B, 1)] :: (string \<times> nat) list"
  have m: "getFilteredIdsMap p n 3 s = Inr ?m"
    by (rule fallback_map [OF assms])
  have cA: "cachedToken s n (address A) = Some A" and cB: "cachedToken s n (address B) = Some B"
    using assms(2,3) by (auto simp: cachedToken_def)
  have settle: "probesSettle p s n ?m"
    by (simp add: probesSettle_def cA cB)
  show ?thesis
    unfolding updateTokenDetails_settled [OF m settle]
    by (simp add: knownTokens_def resolvedTokens_def cA cB)
qed

section \<open>The claims\<close>

text \<open>
  Claim C1, as the code has it. No curated registry is configured (\<^verbatim>\<open>tcrApi\<close> is absent
  or returns an empty set), the cache of the network holds exactly the tokens A and B,
  the contract reports three tokens with A, B and C in the slots 0, 1 and 2, and the
  count and the scan succeed. Then \<^verbatim>\<open>updateTokens\<close> runs the full metadata
  reconciliation, but without a registry the eligible map is computed from the cached
  addresses alone: it is A at 0 and B at 1, C is not eligible, and the list persisted is
  [A, B]. Nothing is assumed about \<^verbatim>\<open>getTokenFromErc20\<close>: the outcome is the same whether
  the resolver would resolve C, answer \<^verbatim>\<open>null\<close> or reject, so no probe of C takes part.
\<close>

theorem fallback_scenario_persists_cached_only:
  assumes "tcrApi p = None \<or> (\<exists>api. tcrApi p = Some api \<and> api n = Inr [])"
    and "getTokens s n = [A, B]" and "address A \<noteq> address B"
    and "c \<noteq> address A" and "c \<noteq> address B"
    and "getNumTokens p n = Inr 3"
    and "getTokenAddressById p n 0 = Inr (address A)"
    and "getTokenAddressById p n 1 = Inr (address B)"
    and "getTokenAddressById p n 2 = Inr c"
  shows "updateTokens_try p n s = updateTokenDetails p n 3 s
     \<and> getFilteredIdsMap p n 3 s = Inr [(address A, 0), (address B, 1)]
     \<and> updateTokenDetails p n 3 s = Inr (persistTokens n [A, B] s)"
proof -
  have "updateTokens_try p n s = updateTokenDetails p n 3 s"
    using assms(2,6) by (simp add: updateTokens_try_def retry_const)
  moreover have "getFilteredIdsMap p n 3 s = Inr [(address A, 0), (address B, 1)]"
    by (rule fallback_map [OF assms(1-5,7-9)])
  moreover have "updateTokenDetails p n 3 s = Inr (persistTokens n [A, B] s)"
    by (rule fallback_pass [OF assms(1-5,7-9)])
  ultimately show ?thesis by simp
qed

theorem fallback_scenario_persists_cached_only_witness:
  "updateTokens_try exampleParams 4 exampleState = updateTokenDetails exampleParams 4 3 exampleState
   \<and> getFilteredIdsMap exampleParams 4 3 exampleState = Inr [(''0xA'', 0), (''0xB'', 1)]
   \<and> updateTokenDetails exampleParams 4 3 exampleState
       = Inr (persistTokens 4 [tokenA, tokenB] exampleState)"
  using fallback_scenario_persists_cached_only
          [of exampleParams 4 exampleState tokenA tokenB "''0xC''"]
  by (simp add: example_defs)

text \<open>
  The scenario of C1 as the specification states it, run on the example: the resolver
  would resolve C, yet the list persisted and cached after \<^verbatim>\<open>updateTokens\<close> is [A, B],
  not [A, B, C].
\<close>

theorem fallback_scenario_counterexample:
  "getTokens (updateTokens exampleParams 4 exampleState) 4 = [tokenA, tokenB]
   \<and> persistCalls (updateTokens exampleParams 4 exampleState) = [(4, [tokenA, tokenB])]
   \<and> getTokens (updateTokens exampleParams 4 exampleState) 4 \<noteq> [tokenA, tokenB, tokenC]"
proof -
  have "updateTokenDetails exampleParams 4 3 (updateTokens_start 4 exampleState)
          = Inr (persistTokens 4 [tokenA, tokenB] (updateTokens_start 4 exampleState))"
    using fallback_pass
            [of exampleParams 4 "updateTokens_start 4 exampleState" tokenA tokenB "''0xC''"]
    by (simp add: example_defs updateTokens_start_def)
  then have "updateTokens exampleParams 4 exampleState
          = persistTokens 4 [tokenA, tokenB] (updateTokens_start 4 exampleState)"
    by (simp add: updateTokens_def updateTokens_resume_def updateTokens_try_def retry_const
          example_defs updateTokens_start_def)
  then show ?thesis
    by (simp add: persistTokens_def getTokens_def updateTokens_start_def exampleState_def
          initialState_def)
qed

text \<open>
  Claim C2. When the count that \<^verbatim>\<open>getNumTokens\<close> returns is strictly greater than the
  length of the cached list, the \<^verbatim>\<open>try\<close> block of \<^verbatim>\<open>updateTokens\<close> is the full metadata
  reconciliation with that count; when it is equal or smaller, it is the id-only refresh
  over the cached tokens, with the default retry parameters.
\<close>

theorem orchestrator_dispatch:
  assumes "getNumTokens p n = Inr numTokens"
  shows "updateTokens_try p n s =
     (if numTokens > length (getTokens s n) then updateTokenDetails p n numTokens s
      else updateTokenIds p n (getTokens s n) 3 1000 True s)"
  using assms by (simp add: updateTokens_try_def retry_const Let_def)

theorem orchestrator_dispatch_witness:
  "updateTokens_try exampleParams 4 exampleState = updateTokenDetails exampleParams 4 3 exampleState
   \<and> updateTokens_try exampleParams 4 exampleState3
       = updateTokenIds exampleParams 4 [tokenA, tokenB, tokenC] 3 1000 True exampleState3"
  using orchestrator_dispatch [of exampleParams 4 3 exampleState]
    orchestrator_dispatch [of exampleParams 4 3 exampleState3]
  by (simp add: example_defs)

text \<open>
  Claim C3. In a pass of the id-only refresh that does not throw and in which at least
  one token is classified as removed or updated, the list persisted is the cached list
  with every address of the pass whose \<^verbatim>\<open>hasToken\<close> query returned false dropped and every
  updated record in the place of its old one; so no address of the pass that the
  contract does not recognize is left in the persisted list.
\<close>

theorem id_refresh_persists_refreshed_list:
  assumes "0 < maxRetries"
    and "\<exists>t\<in>set tokens. notRecognized p n (address t) \<or> refreshedId p n (address t) \<noteq> None"
  shows "\<exists>s'. updateTokenIds p n tokens maxRetries retryDelay exponentialBackOff s = Inr s'
      \<and> getTokens s' n = refreshedList p n tokens (getTokens s n)
      \<and> persistCalls s' = persistCalls s @ [(n, refreshedList p n tokens (getTokens s n))]
      \<and> (\<forall>t\<in>set tokens. notRecognized p n (address t)
            \<longrightarrow> address t \<notin> address ` set (getTokens s' n))"
proof -
  let ?L = "refreshedList p n tokens (getTokens s n)"
  have no: "\<forall>t\<in>set tokens. notRecognized p n (address t) \<longrightarrow> address t \<notin> address ` set ?L"
    unfolding refreshedList_addresses by simp
  show ?thesis
    using assms(2) no
    unfolding updateTokenIds_result [OF assms(1)]
    by (simp add: Let_def setTimeout_def persistTokens_def getTokens_def)
qed

theorem id_refresh_persists_refreshed_list_witness:
  "\<exists>s'. updateTokenIds delistedParams 4 [tokenA, tokenB] 3 1000 True exampleState = Inr s'
      \<and> getTokens s' 4 = [tokenA\<lparr>tokenId := 7\<rparr>]
      \<and> persistCalls s' = [(4, [tokenA\<lparr>tokenId := 7\<rparr>])]
      \<and> ''0xB'' \<notin> address ` set (getTokens s' 4)"
proof -
  have c: "getTokens exampleState 4 = [tokenA, tokenB]" "persistCalls exampleState = []"
    by (simp_all add: example_defs)
  have h: "\<exists>t\<in>set [tokenA, tokenB]. notRecognized delistedParams 4 (address t)
             \<or> refreshedId delistedParams 4 (address t) \<noteq> None"
    by (simp add: notRecognized_def example_defs)
  have b: "notRecognized delistedParams 4 (address tokenB)" "address tokenB = ''0xB''"
    by (simp_all add: notRecognized_def example_defs)
  show ?thesis
    using id_refresh_persists_refreshed_list
            [of 3 "[tokenA, tokenB]" delistedParams 4 1000 True exampleState, OF _ h] b
    by (auto simp: c delisted_list)
qed

text \<open>
  Claim C4. If a failure escapes the \<^verbatim>\<open>try\<close> block of \<^verbatim>\<open>updateTokens\<close> (the count fetch,
  the full reconciliation or the awaited id-only refresh), the network is no longer in
  \<^verbatim>\<open>areTokensUpdated\<close> when \<^verbatim>\<open>updateTokens\<close> has finished, and the next call of the accessor
  for the network starts \<^verbatim>\<open>updateTokens\<close> again: it sets the flag and leaves one more
  background run for the network.
\<close>

theorem orchestrator_failure_clears_flag:
  assumes "updateTokens_try p n (updateTokens_start n s) = Inl e"
  shows "n \<notin> areTokensUpdated (updateTokens p n s)
     \<and> background (snd (getTokensFactory n (updateTokens p n s)))
         = background (updateTokens p n s) @ [n]
     \<and> n \<in> areTokensUpdated (snd (getTokensFactory n (updateTokens p n s)))"
  using assms
  by (simp add: updateTokens_def updateTokens_resume_def getTokensFactory_def
        updateTokens_start_def Let_def)

theorem orchestrator_failure_clears_flag_witness:
  "4 \<notin> areTokensUpdated (updateTokens downParams 4 exampleState)
   \<and> background (snd (getTokensFactory 4 (updateTokens downParams 4 exampleState)))
       = background (updateTokens downParams 4 exampleState) @ [4]
   \<and> 4 \<in> areTokensUpdated (snd (getTokensFactory 4 (updateTokens downParams 4 exampleState)))"
proof -
  have "updateTokens_try downParams 4 (updateTokens_start 4 exampleState)
          = Inl (CallFailed ''node down'')"
    by (simp add: updateTokens_try_def retry_const example_defs)
  then show ?thesis
    by (rule orchestrator_failure_clears_flag)
qed

text \<open>
  Claim C5. A batch is refreshed with the default parameters (three retries, initial
  delay \<open>d\<close>, exponential backoff) and the same tokens, \<open>failing\<close>, fail in every round.
  The first pass returns normally with the retry only queued, at delay \<open>d\<close>; the retries
  are queued at the delays \<open>d\<close>, \<open>2 d\<close> and \<open>4 d\<close>, each over exactly the tokens that failed
  before; and the call queued last, for which no retry is left, throws the error that
  names the addresses of the tokens still failing.
\<close>

theorem id_refresh_backoff:
  assumes "timers s = []"
    and "failing = filter (queryThrows p1 n) tokens" and "failing \<noteq> []"
    and "\<forall>t\<in>set failing. queryThrows p2 n t" and "\<forall>t\<in>set failing. queryThrows p3 n t"
  shows "\<exists>s1 s2 s3.
       updateTokenIds p1 n tokens 3 d True s = Inr s1
     \<and> timers s1 = [(d, \<lparr>rc_networkId = n, rc_tokens = failing, rc_maxRetries = 2,
                          rc_retryDelay = 2 * d\<rparr>)]
     \<and> fireTimer p2 s1 = Inr s2
     \<and> timers s2 = [(2 * d, \<lparr>rc_networkId = n, rc_tokens = failing, rc_maxRetries = 1,
                              rc_retryDelay = 4 * d\<rparr>)]
     \<and> fireTimer p3 s2 = Inr s3
     \<and> timers s3 = [(4 * d, \<lparr>rc_networkId = n, rc_tokens = failing, rc_maxRetries = 0,
                              rc_retryDelay = 8 * d\<rparr>)]
     \<and> fireTimer p4 s3 = Inl (MaxRetriesExceeded n (map address failing))"
proof -
  have f2: "filter (queryThrows p2 n) failing = failing" using assms(4) by simp
  have f3: "filter (queryThrows p3 n) failing = failing" using assms(5) by simp
  show ?thesis
    using assms(1,3) f2 f3
    unfolding fireTimer_def
    by (simp add: updateTokenIds_result assms(2) [symmetric] Let_def setTimeout_def
          persistTokens_def)
      (simp add: updateTokenIds_def)
qed

theorem id_refresh_backoff_witness:
  "\<exists>s1 s2 s3.
       updateTokenIds flakyParams 4 [tokenA, tokenB] 3 1000 True exampleState = Inr s1
     \<and> timers s1 = [(1000, \<lparr>rc_networkId = 4, rc_tokens = [tokenB], rc_maxRetries = 2,
                             rc_retryDelay = 2000\<rparr>)]
     \<and> fireTimer flakyParams s1 = Inr s2
     \<and> timers s2 = [(2000, \<lparr>rc_networkId = 4, rc_tokens = [tokenB], rc_maxRetries = 1,
                             rc_retryDelay = 4000\<rparr>)]
     \<and> fireTimer flakyParams s2 = Inr s3
     \<and> timers s3 = [(4000, \<lparr>rc_networkId = 4, rc_tokens = [tokenB], rc_maxRetries = 0,
                             rc_retryDelay = 8000\<rparr>)]
     \<and> fireTimer flakyParams s3 = Inl (MaxRetriesExceeded 4 [''0xB''])"
proof -
  have q: "queryThrows flakyParams 4 tokenB" "\<not> queryThrows flakyParams 4 tokenA"
    by (simp_all add: queryThrows_def example_defs)
  have f: "[tokenB] = filter (queryThrows flakyParams 4) [tokenA, tokenB]"
    using q by simp
  have t: "timers exampleState = []" by (simp add: example_defs)
  have a: "address tokenB = ''0xB''" by (simp add: example_defs)
  show ?thesis
    using id_refresh_backoff
            [of exampleState "[tokenB]" flakyParams 4 "[tokenA, tokenB]" flakyParams flakyParams
               1000 flakyParams, OF t f]
      q(1)
    by (simp add: a)
qed

text \<open>
  Claim C6. A full metadata reconciliation that reaches its merge (the eligible map was
  computed and no probe rejected) persists a list, whether or not a new token was
  resolved, and the list is the known eligible tokens taken from the cache followed by
  the newly eligible tokens that were resolved.
\<close>

theorem full_reconciliation_merge:
  assumes "getFilteredIdsMap p n numTokens s = Inr m" and "probesSettle p s n m"
  shows "\<exists>s'. updateTokenDetails p n numTokens s = Inr s'
     \<and> persistCalls s' = persistCalls s @ [(n, knownTokens s n m @ resolvedTokens p s n m)]
     \<and> getTokens s' n = knownTokens s n m @ resolvedTokens p s n m"
  unfolding updateTokenDetails_settled [OF assms]
  by (simp add: persistTokens_def getTokens_def)

theorem full_reconciliation_merge_witness:
  "\<exists>s'. updateTokenDetails registryParams 4 3 exampleState = Inr s'
     \<and> persistCalls s' = [(4, [tokenA, tokenB, tokenC])]
     \<and> getTokens s' 4 = [tokenA, tokenB, tokenC]"
proof -
  let ?m = "[(''0xA'', 0), (''0xB'', 1), (''0xC'', 2)] :: (string \<times> nat) list"
  have s: "probesSettle registryParams exampleState 4 ?m"
    by (simp add: probesSettle_def probeRejects_def example_cached) (simp add: example_defs)
  have k: "knownTokens exampleState 4 ?m = [tokenA, tokenB]"
    by (simp add: knownTokens_def example_cached)
  have r: "resolvedTokens registryParams exampleState 4 ?m = [tokenC]"
    by (simp add: resolvedTokens_def example_cached resolvedToken_def) (simp add: example_defs)
  have c: "persistCalls exampleState = []" by (simp add: example_defs)
  show ?thesis
    using full_reconciliation_merge [OF registry_map s]
    unfolding k r c by simp
qed

text \<open>
  Claim C7. After a full metadata reconciliation that completes without error, with a
  resolver that returns the metadata of the address it is asked about, every address in
  the list passed to \<^verbatim>\<open>persistTokens\<close> is a key of the eligible map that
  \<^verbatim>\<open>_getFilteredIdsMap\<close> computed for the pass.
\<close>

theorem full_reconciliation_addresses_eligible:
  assumes "updateTokenDetails p n numTokens s = Inr s'"
    and "getFilteredIdsMap p n numTokens s = Inr m"
    and "resolverEchoes p n m"
  shows "\<exists>tokenList. persistCalls s' = persistCalls s @ [(n, tokenList)]
     \<and> (\<forall>t\<in>set tokenList. address t \<in> fst ` set m)"
proof -
  have settle: "probesSettle p s n m"
    by (rule updateTokenDetails_Inr [OF assms(1,2)])
  have s': "s' = persistTokens n (knownTokens s n m @ resolvedTokens p s n m) s"
    using assms(1) unfolding updateTokenDetails_settled [OF assms(2) settle] by simp
  have k: "address t \<in> fst ` set m" if "t \<in> set (knownTokens s n m)" for t
  proof -
    from that obtain a i where "(a, i) \<in> set m" "cachedToken s n a = Some t"
      by (auto simp: knownTokens_mem)
    then show ?thesis using cachedToken_Some [of s n a t] by force
  qed
  have r: "address t \<in> fst ` set m" if "t \<in> set (resolvedTokens p s n m)" for t
  proof -
    from that obtain a i where "(a, i) \<in> set m" "resolvedToken p n a i = Some t"
      by (auto simp: resolvedTokens_mem)
    then show ?thesis using resolvedToken_address [OF assms(3), of a i t] by force
  qed
  show ?thesis
    using k r by (auto simp: s' persistTokens_def)
qed

theorem full_reconciliation_addresses_eligible_witness:
  "\<exists>tokenList. persistCalls (persistTokens 4 [tokenA, tokenB, tokenC] exampleState)
                  = persistCalls exampleState @ [(4, tokenList)]
     \<and> address ` set tokenList \<subseteq> {''0xA'', ''0xB'', ''0xC''}"
  using full_reconciliation_addresses_eligible [OF registry_pass registry_map registry_echo]
  by auto

text \<open>
  Claim C8. In a full reconciliation whose probes do not reject, a newly eligible
  address \<open>x\<close> whose probe returns \<^verbatim>\<open>null\<close> is left out of the list persisted: the pass
  returns normally, it persists the list it would persist had \<open>x\<close> not been eligible,
  and, the resolver returning the metadata of the address it is asked about, no record
  of that list has the address \<open>x\<close>. The accessor returns a list and
  \<^verbatim>\<open>updateTokens\<close> a state: neither has an error to raise.
\<close>

theorem null_probe_excluded:
  assumes "getFilteredIdsMap p n numTokens s = Inr m"
    and "(x, i) \<in> set m" and "cachedToken s n x = None"
    and "getTokenFromErc20 p n x = Inr None"
    and "probesSettle p s n m"
    and "resolverEchoes p n m"
  shows "\<exists>s'. updateTokenDetails p n numTokens s = Inr s'
     \<and> persistCalls s' = persistCalls s @ [(n, getTokens s' n)]
     \<and> x \<notin> address ` set (getTokens s' n)
     \<and> getTokens s' n
         = knownTokens s n m @ resolvedTokens p s n (filter (\<lambda>(a, j). a \<noteq> x) m)"
proof -
  let ?L = "knownTokens s n m @ resolvedTokens p s n m"
  have k: "address t \<noteq> x" if "t \<in> set (knownTokens s n m)" for t
  proof -
    from that obtain a j where "(a, j) \<in> set m" "cachedToken s n a = Some t"
      by (auto simp: knownTokens_mem)
    then show ?thesis using cachedToken_Some [of s n a t] assms(3) by auto
  qed
  have r: "address t \<noteq> x" if "t \<in> set (resolvedTokens p s n m)" for t
  proof -
    from that obtain a j where m: "(a, j) \<in> set m" and t: "resolvedToken p n a j = Some t"
      by (auto simp: resolvedTokens_mem)
    have "address t = a" using resolvedToken_address [OF assms(6) m t] by simp
    moreover have "a \<noteq> x" using t assms(4) by (auto simp: resolvedToken_def)
    ultimately show ?thesis by simp
  qed
  have "x \<notin> address ` set ?L" using k r by auto
  then show ?thesis
    unfolding updateTokenDetails_settled [OF assms(1,5)]
    by (simp add: persistTokens_def getTokens_def resolvedTokens_drop_null [OF assms(4)])
qed

theorem null_probe_excluded_witness:
  "\<exists>s'. updateTokenDetails nullProbeParams 4 4 exampleState = Inr s'
     \<and> persistCalls s' = [(4, getTokens s' 4)]
     \<and> ''0xX'' \<notin> address ` set (getTokens s' 4)
     \<and> getTokens s' 4 = [tokenA, tokenB, tokenC]"
proof -
  let ?m = "[(''0xA'', 0), (''0xB'', 1), (''0xC'', 2), (''0xX'', 3)] :: (string \<times> nat) list"
  have x: "(''0xX'', 3) \<in> set ?m" by simp
  have n: "getTokenFromErc20 nullProbeParams 4 ''0xX'' = Inr None"
    by (simp add: example_defs)
  have s: "probesSettle nullProbeParams exampleState 4 ?m"
    by (simp add: probesSettle_def probeRejects_def example_cached) (simp add: example_defs)
  have e: "resolverEchoes nullProbeParams 4 ?m"
    by (simp add: resolverEchoes_def example_defs)
  have k: "knownTokens exampleState 4 ?m = [tokenA, tokenB]"
    by (simp add: knownTokens_def example_cached)
  have r: "resolvedTokens nullProbeParams exampleState 4 (filter (\<lambda>(a, j). a \<noteq> ''0xX'') ?m)
             = [tokenC]"
    by (simp add: resolvedTokens_def example_cached resolvedToken_def) (simp add: example_defs)
  have c: "persistCalls exampleState = []" by (simp add: example_defs)
  show ?thesis
    using null_probe_excluded [OF nullProbe_map x example_cached(4) n s e]
    unfolding k r c by simp
qed

text \<open>
  Claim C9. The accessor is called \<open>k\<close> times, at least once, for a network that is not
  yet in \<^verbatim>\<open>areTokensUpdated\<close>, and nothing else touches the state in between. Every call
  returns the same cached list; the first call puts the network into \<^verbatim>\<open>areTokensUpdated\<close>
  before it returns and starts one background \<^verbatim>\<open>updateTokens\<close>; the later calls start
  none, so exactly one is started.
\<close>

theorem accessor_idempotent:
  assumes "n \<notin> areTokensUpdated s" and "0 < k"
  shows "accessorCalls n k s =
     (replicate k (getTokens s n),
      s\<lparr>areTokensUpdated := insert n (areTokensUpdated s), background := background s @ [n]\<rparr>)"
proof -
  obtain j where k: "k = Suc j" using assms(2) by (cases k) auto
  let ?s1 = "s\<lparr>areTokensUpdated := insert n (areTokensUpdated s),
               background := background s @ [n]\<rparr>"
  have 1: "getTokensFactory n s = (getTokens s n, ?s1)"
    using assms(1) by (simp add: getTokensFactory_def updateTokens_start_def getTokens_def)
  have 2: "accessorCalls n j ?s1 = (replicate j (getTokens ?s1 n), ?s1)"
    by (rule accessor_flagged) simp
  show ?thesis
    unfolding k by (simp add: 1 2) (simp add: getTokens_def)
qed

theorem accessor_idempotent_witness:
  "fst (accessorCalls 4 3 exampleState) = [[tokenA, tokenB], [tokenA, tokenB], [tokenA, tokenB]]
   \<and> background (snd (accessorCalls 4 3 exampleState)) = [4]
   \<and> areTokensUpdated (snd (accessorCalls 4 3 exampleState)) = {4}"
  using accessor_idempotent [of 4 exampleState 3]
  by (simp add: example_defs numeral_3_eq_3)

text \<open>
  Claim C10. In a full metadata reconciliation that completes, every eligible address
  that the cache already holds is reused as the cached record itself, with all fields
  including the id, whatever slot id the scan found for it; the slot ids of the scan
  are given to the newly resolved tokens only. A known token whose slot changed on the
  contract therefore keeps its cached id in the list persisted.
\<close>

theorem known_tokens_keep_cached_id:
  assumes "updateTokenDetails p n numTokens s = Inr s'"
    and "getFilteredIdsMap p n numTokens s = Inr m"
  shows "getTokens s' n = knownTokens s n m @ resolvedTokens p s n m
     \<and> (\<forall>(a, i)\<in>set m. \<forall>t. cachedToken s n a = Some t
           \<longrightarrow> t \<in> set (getTokens s n) \<and> address t = a \<and> t \<in> set (knownTokens s n m))
     \<and> (\<forall>t\<in>set (knownTokens s n m). t \<in> set (getTokens s n))
     \<and> (\<forall>t\<in>set (resolvedTokens p s n m).
           \<exists>(a, i)\<in>set m. cachedToken s n a = None \<and> tokenId t = i)"
proof -
  have settle: "probesSettle p s n m"
    by (rule updateTokenDetails_Inr [OF assms])
  have s': "s' = persistTokens n (knownTokens s n m @ resolvedTokens p s n m) s"
    using assms(1) unfolding updateTokenDetails_settled [OF assms(2) settle] by simp
  have 1: "getTokens s' n = knownTokens s n m @ resolvedTokens p s n m"
    by (simp add: s' persistTokens_def getTokens_def)
  have 2: "\<forall>(a, i)\<in>set m. \<forall>t. cachedToken s n a = Some t
           \<longrightarrow> t \<in> set (getTokens s n) \<and> address t = a \<and> t \<in> set (knownTokens s n m)"
    using cachedToken_Some by (fastforce simp: knownTokens_mem)
  have 3: "\<forall>t\<in>set (knownTokens s n m). t \<in> set (getTokens s n)"
    using cachedToken_Some by (fastforce simp: knownTokens_mem)
  have 4: "\<forall>t\<in>set (resolvedTokens p s n m).
           \<exists>(a, i)\<in>set m. cachedToken s n a = None \<and> tokenId t = i"
    using resolvedToken_id by (fastforce simp: resolvedTokens_mem)
  show ?thesis using 1 2 3 4 by blast
qed

theorem known_tokens_keep_cached_id_witness:
  "getFilteredIdsMap swappedParams 4 3 exampleState
     = Inr [(''0xB'', 0), (''0xA'', 1), (''0xC'', 2)]
   \<and> tokenB \<in> set (getTokens (persistTokens 4 [tokenB, tokenA, tokenC] exampleState) 4)
   \<and> tokenId tokenB = 1
   \<and> tokenB \<in> set (getTokens exampleState 4)"
proof -
  let ?m = "[(''0xB'', 0), (''0xA'', 1), (''0xC'', 2)] :: (string \<times> nat) list"
  let ?s' = "persistTokens 4 [tokenB, tokenA, tokenC] exampleState"
  note t = known_tokens_keep_cached_id [OF swapped_pass swapped_map]
  from t have 1: "getTokens ?s' 4
      = knownTokens exampleState 4 ?m @ resolvedTokens swappedParams exampleState 4 ?m"
    by blast
  from t have "\<forall>(a, i)\<in>set ?m. \<forall>t. cachedToken exampleState 4 a = Some t
           \<longrightarrow> t \<in> set (getTokens exampleState 4) \<and> address t = a
               \<and> t \<in> set (knownTokens exampleState 4 ?m)"
    by blast
  with example_cached(2) have 2: "tokenB \<in> set (getTokens exampleState 4)"
      "tokenB \<in> set (knownTokens exampleState 4 ?m)"
    by auto
  have 3: "tokenId tokenB = 1" by (simp add: tokenB_def)
  show ?thesis using 1 2 3 swapped_map by simp
qed

end
